theory Spec2Isabelle
  imports Complex_Main "HOL-Library.Sublist" "HOL-Library.AList"
begin

section \<open>file-organiser.py: the batch and live file organiser\<close>

text \<open>
  The script groups the loose files of one watched directory (\<open>BASE_FOLDER\<close>) into
  subfolders chosen by a language model: once at start-up for every file already there
  (\<open>batch_classify\<close>, \<open>apply_moves\<close>) and then for every file the watcher reports
  (\<open>classify_single_file\<close>, \<open>handle_new_file\<close>).

  What the script receives from outside enters the model as follows.
  \<^item> The model call \<open>client.models.generate_content(...).text\<close> is a parameter
    \<open>provider\<close>: the prompt is a fixed template around the values of a \<open>request\<close>, so
    the provider is a function of the request. A call that raises or returns no text
    is outside the model.
  \<^item> \<open>json.loads\<close> is a parameter \<open>loads\<close>; \<open>None\<close> stands for any exception it raises
    (every one of them is caught by \<open>except Exception\<close>).
  \<^item> The file system is a value \<open>filesystem\<close> with the operations of \<open>pathlib\<close> and
    \<open>shutil\<close> the script calls, written out below from Python's documentation for a
    POSIX system without symbolic links, permission errors or limits on names.
  \<^item> Every call to the provider, to \<open>mkdir\<close> and to \<open>shutil.move\<close> is recorded in a
    trace, so that what the script did can be stated apart from what became of the disk.
\<close>

subsection \<open>Strings\<close>

text \<open>A Python \<open>str\<close> is a sequence of Unicode code points.\<close>

type_synonym pystr = "nat list"

definition lit :: "string \<Rightarrow> pystr" where
  "lit s = map of_char s"

text \<open>The code points \<open>str.strip()\<close> removes: those for which \<open>str.isspace\<close> holds.\<close>

definition isspace :: "nat \<Rightarrow> bool" where
  "isspace c \<longleftrightarrow>
     (9 \<le> c \<and> c \<le> 13) \<or> (28 \<le> c \<and> c \<le> 32) \<or> c = 133 \<or> c = 160 \<or> c = 5760 \<or>
     (8192 \<le> c \<and> c \<le> 8202) \<or> c = 8232 \<or> c = 8233 \<or> c = 8239 \<or> c = 8287 \<or> c = 12288"

definition strip :: "pystr \<Rightarrow> pystr" where
  "strip s = rev (dropWhile isspace (rev (dropWhile isspace s)))"

text \<open>
  \<open>s.replace(old, new)\<close>: every occurrence of \<open>old\<close>, found from the left without
  overlap; an empty \<open>old\<close> matches before every character and at the end.
  \<open>s.startswith(p)\<close> is \<open>prefix p s\<close>.
\<close>

function replace :: "pystr \<Rightarrow> pystr \<Rightarrow> pystr \<Rightarrow> pystr" where
  "replace old new [] = (if old = [] then new else [])"
| "replace old new (c # cs) =
     (if old = [] then new @ c # replace old new cs
      else if prefix old (c # cs) then new @ replace old new (drop (length old) (c # cs))
      else c # replace old new cs)"
  by pat_completeness auto
termination
  by (relation "measure (\<lambda>(old, new, s). length s)") auto

text \<open>Lines 40-41.\<close>

definition sanitize_folder :: "pystr \<Rightarrow> pystr" where
  "sanitize_folder name = strip (replace (lit ''/'') (lit ''_'') name)"

text \<open>
  Lines 100-101 and 190-191, the same two lines in both classifiers; \<open>raw\<close> is
  \<open>response.text.strip()\<close>.
\<close>

definition strip_code_fence :: "pystr \<Rightarrow> pystr" where
  "strip_code_fence raw =
     (if prefix (lit ''```'') raw
      then strip (replace (lit ''```'') [] (replace (lit ''```json'') [] raw))
      else raw)"

subsection \<open>Paths and configuration\<close>

text \<open>
  A path is the list of its components below \<open>/\<close>. \<open>path_name\<close> is \<open>Path.name\<close>,
  \<open>parent\<close> is \<open>Path.parent\<close>.
\<close>

type_synonym path = "pystr list"

definition path_name :: "path \<Rightarrow> pystr" where
  "path_name p = (if p = [] then [] else last p)"

definition parent :: "path \<Rightarrow> path" where
  "parent p = butlast p"

text \<open>
  \<open>d / s\<close> for a string \<open>s\<close> without a separator, as the operating system then resolves
  it: an empty \<open>s\<close> and \<open>.\<close> name \<open>d\<close> itself, \<open>..\<close> names the directory above \<open>d\<close>.
  (Every folder name the script joins has been through \<open>sanitize_folder\<close>, which leaves
  no separator, and a file's \<open>name\<close> has none.)
\<close>

definition subpath :: "path \<Rightarrow> pystr \<Rightarrow> path" where
  "subpath d s =
     (if s = [] \<or> s = lit ''.'' then d
      else if s = lit ''..'' then butlast d
      else d @ [s])"

text \<open>Lines 13-22. \<open>home\<close> is \<open>Path.home()\<close>.\<close>

definition BASE_FOLDER :: "path \<Rightarrow> path" where
  "BASE_FOLDER home = home @ [lit ''Projects'', lit ''Pybox'']"

definition IGNORED_FILENAMES :: "pystr list" where
  "IGNORED_FILENAMES = [lit ''.DS_Store'', lit ''.gitignore'', lit ''Thumbs.db'']"

definition MAX_FOLDERS :: nat where
  "MAX_FOLDERS = 5"

text \<open>Lines 33-37.\<close>

definition should_ignore :: "path \<Rightarrow> bool" where
  "should_ignore file_path \<longleftrightarrow>
     prefix (lit ''.'') (path_name file_path) \<or> path_name file_path \<in> set IGNORED_FILENAMES"

subsection \<open>Exceptions and JSON values\<close>

datatype exn =
  AttributeError | TypeError | FileNotFoundError | FileExistsError | NotADirectoryError
  | ShutilError

text \<open>
  What \<open>json.loads\<close> returns. An object is the list of its items in order; \<open>json.loads\<close>
  returns a \<open>dict\<close>, so the keys of an object it returns are distinct.
\<close>

datatype json =
  JNull | JBool bool | JInt int | JFloat real | JStr pystr | JArr "json list"
  | JObj "(pystr \<times> json) list"

text \<open>\<open>data.items()\<close>: only a \<open>dict\<close> has the method.\<close>

fun py_items :: "json \<Rightarrow> exn + (pystr \<times> json) list" where
  "py_items (JObj kvs) = Inr kvs"
| "py_items _ = Inl AttributeError"

text \<open>
  \<open>s in filenames\<close> for a string \<open>s\<close>: membership in a list, containment in a string,
  key membership in a dict; any other JSON value is not iterable.
\<close>

fun py_contains :: "json \<Rightarrow> pystr \<Rightarrow> exn + bool" where
  "py_contains (JArr xs) s = Inr (JStr s \<in> set xs)"
| "py_contains (JStr t) s = Inr (sublist s t)"
| "py_contains (JObj kvs) s = Inr (s \<in> set (map fst kvs))"
| "py_contains _ s = Inl TypeError"

text \<open>\<open>data.get(key, default)\<close>.\<close>

fun py_get :: "json \<Rightarrow> pystr \<Rightarrow> json \<Rightarrow> exn + json" where
  "py_get (JObj kvs) k dflt = Inr (case map_of kvs k of None \<Rightarrow> dflt | Some v \<Rightarrow> v)"
| "py_get _ k dflt = Inl AttributeError"

text \<open>\<open>sanitize_folder(v)\<close> on a decoded value: only a \<open>str\<close> has \<open>replace\<close>.\<close>

fun py_sanitize_folder :: "json \<Rightarrow> exn + pystr" where
  "py_sanitize_folder (JStr s) = Inr (sanitize_folder s)"
| "py_sanitize_folder _ = Inl AttributeError"

subsection \<open>The file system\<close>

text \<open>
  The entries below \<open>/\<close>, each a regular file with its content or a directory, in the
  order a directory listing gives them. \<open>/\<close> itself is a directory.
\<close>

datatype node = File pystr | Dir

type_synonym filesystem = "(path \<times> node) list"

definition lookup :: "filesystem \<Rightarrow> path \<Rightarrow> node option" where
  "lookup d p = (if p = [] then Some Dir else map_of d p)"

definition path_exists :: "filesystem \<Rightarrow> path \<Rightarrow> bool" where
  "path_exists d p \<longleftrightarrow> lookup d p \<noteq> None"

definition is_dir :: "filesystem \<Rightarrow> path \<Rightarrow> bool" where
  "is_dir d p \<longleftrightarrow> lookup d p = Some Dir"

definition is_file :: "filesystem \<Rightarrow> path \<Rightarrow> bool" where
  "is_file d p \<longleftrightarrow> (case lookup d p of Some (File c) \<Rightarrow> True | _ \<Rightarrow> False)"

definition iterdir :: "filesystem \<Rightarrow> path \<Rightarrow> exn + path list" where
  "iterdir d p =
     (case lookup d p of
        None \<Rightarrow> Inl FileNotFoundError
      | Some (File c) \<Rightarrow> Inl NotADirectoryError
      | Some Dir \<Rightarrow> Inr (filter (\<lambda>q. q \<noteq> [] \<and> butlast q = p) (map fst d)))"

text \<open>\<open>p.mkdir(exist_ok=True)\<close>.\<close>

definition mkdir_exist_ok :: "filesystem \<Rightarrow> path \<Rightarrow> exn + filesystem" where
  "mkdir_exist_ok d p =
     (case lookup d p of
        Some Dir \<Rightarrow> Inr d
      | Some (File c) \<Rightarrow> Inl FileExistsError
      | None \<Rightarrow>
          (case lookup d (parent p) of
             None \<Rightarrow> Inl FileNotFoundError
           | Some (File c) \<Rightarrow> Inl NotADirectoryError
           | Some Dir \<Rightarrow> Inr (d @ [(p, Dir)])))"

text \<open>\<open>os.rename\<close> of a regular file (an existing regular file at \<open>dst\<close> is replaced).\<close>

definition rename_file :: "filesystem \<Rightarrow> path \<Rightarrow> path \<Rightarrow> pystr \<Rightarrow> filesystem" where
  "rename_file d src dst c =
     (if src = dst then d else AList.update dst (File c) (AList.delete src d))"

text \<open>\<open>os.rename\<close> of a directory to a path that does not exist: the subtree moves.\<close>

definition rename_dir :: "filesystem \<Rightarrow> path \<Rightarrow> path \<Rightarrow> filesystem" where
  "rename_dir d src dst =
     map (\<lambda>(p, n). if prefix src p then (dst @ drop (length src) p, n) else (p, n)) d"

text \<open>
  \<open>shutil.move(src, dst)\<close>: into \<open>dst\<close> when \<open>dst\<close> is a directory (refusing to
  overwrite an entry of the same name there), onto \<open>dst\<close> otherwise. A regular file
  is renamed, and the rename fails when the source is gone or the destination does not
  lie in a directory. A directory moves with its subtree, unless the destination exists
  or lies inside it. (The script passes sources that were regular files when it listed
  them; both callers make sure the target exists before they call.)
\<close>

definition shutil_move :: "filesystem \<Rightarrow> path \<Rightarrow> path \<Rightarrow> exn + filesystem" where
  "shutil_move d src dst =
     (let real_dst = (if is_dir d dst then subpath dst (path_name src) else dst) in
      if is_dir d dst \<and> src = dst then Inr d
      else if is_dir d dst \<and> path_exists d real_dst then Inl ShutilError
      else
        (case lookup d src of
           None \<Rightarrow> Inl FileNotFoundError
         | Some (File c) \<Rightarrow>
             (case lookup d (parent real_dst) of
                None \<Rightarrow> Inl FileNotFoundError
              | Some (File c') \<Rightarrow> Inl NotADirectoryError
              | Some Dir \<Rightarrow> Inr (rename_file d src real_dst c))
         | Some Dir \<Rightarrow>
             if prefix src real_dst then Inl ShutilError
             else if path_exists d real_dst then Inl FileExistsError
             else
               (case lookup d (parent real_dst) of
                  Some Dir \<Rightarrow> Inr (rename_dir d src real_dst)
                | _ \<Rightarrow> Inl FileNotFoundError)))"



subsection \<open>The world: file system and trace\<close>

text \<open>
  A \<open>ClassificationRequest\<close>: the candidate file names and the ceiling (batch), or one
  file name and the existing folder names (live).
\<close>

datatype request = BatchRequest "pystr list" nat | LiveRequest pystr "pystr list"

text \<open>
  The calls the script makes, in order: a provider call, the report of a parse failure
  (lines 106-107), \<open>mkdir\<close> of a path, and \<open>shutil.move(src, dst)\<close> that returned
  (\<open>Moved\<close>) or raised an exception that was caught (\<open>MoveFailed\<close>).
\<close>

datatype event =
  Request request | ParseFailed | Mkdir path | Moved path path | MoveFailed path path exn

record world =
  disk :: filesystem
  trace :: "event list"

datatype 'a result = Returned 'a world | Raised exn world

definition emit :: "event \<Rightarrow> world \<Rightarrow> world" where
  "emit e w = w\<lparr>trace := trace w @ [e]\<rparr>"

text \<open>
  Lines 91-101 and 183-191: the provider is called, its text stripped and freed of its
  code fence; the result is what \<open>json.loads\<close> receives.
\<close>

definition json_text :: "(request \<Rightarrow> pystr) \<Rightarrow> request \<Rightarrow> pystr" where
  "json_text provider req = strip_code_fence (strip (provider req))"

subsection \<open>Batch classification (lines 46-122)\<close>

type_synonym folder_map = "(pystr \<times> path list) list"

text \<open>\<open>folder_map.setdefault(clean_folder, []).append(f)\<close> on an insertion-ordered dict.\<close>

fun setdefault_append :: "folder_map \<Rightarrow> pystr \<Rightarrow> path \<Rightarrow> folder_map" where
  "setdefault_append [] k f = [(k, [f])]"
| "setdefault_append ((k', members) # m) k f =
     (if k' = k then (k', members @ [f]) # m else (k', members) # setdefault_append m k f)"

text \<open>Lines 114-116: the loop over \<open>files\<close> for one item of the decoded object.\<close>

fun assign_files :: "pystr \<Rightarrow> json \<Rightarrow> path list \<Rightarrow> folder_map \<Rightarrow> exn + folder_map" where
  "assign_files clean_folder filenames [] m = Inr m"
| "assign_files clean_folder filenames (f # files) m =
     (case py_contains filenames (path_name f) of
        Inl e \<Rightarrow> Inl e
      | Inr b \<Rightarrow>
          assign_files clean_folder filenames files
            (if b then setdefault_append m clean_folder f else m))"

text \<open>Lines 112-116: the loop over \<open>data.items()\<close>.\<close>

fun build_folder_map :: "(pystr \<times> json) list \<Rightarrow> path list \<Rightarrow> folder_map \<Rightarrow> exn + folder_map" where
  "build_folder_map [] files m = Inr m"
| "build_folder_map ((folder, filenames) # rest) files m =
     (case assign_files (sanitize_folder folder) filenames files m of
        Inl e \<Rightarrow> Inl e
      | Inr m' \<Rightarrow> build_folder_map rest files m')"

definition batch_classify ::
  "(request \<Rightarrow> pystr) \<Rightarrow> (pystr \<Rightarrow> json option) \<Rightarrow> path list \<Rightarrow> world \<Rightarrow> folder_map result" where
  "batch_classify provider loads files w =
     (let req = BatchRequest (map path_name files) MAX_FOLDERS;
          w1 = emit (Request req) w;
          raw = json_text provider req
      in case loads raw of
           None \<Rightarrow> Returned [] (emit ParseFailed w1)
         | Some data \<Rightarrow>
             (case py_items data of
                Inl e \<Rightarrow> Raised e w1
              | Inr kvs \<Rightarrow>
                  (case build_folder_map kvs files [] of
                     Inl e \<Rightarrow> Raised e w1
                   | Inr m \<Rightarrow> Returned m w1)))"

subsection \<open>Applying a plan (lines 125-136)\<close>

text \<open>Lines 131-136: one \<open>try\<close> around each file's move.\<close>

fun move_files :: "path \<Rightarrow> path list \<Rightarrow> world \<Rightarrow> world" where
  "move_files target [] w = w"
| "move_files target (f # files) w =
     (let dst = subpath target (path_name f) in
      case shutil_move (disk w) f dst of
        Inl e \<Rightarrow> move_files target files (emit (MoveFailed f dst e) w)
      | Inr d \<Rightarrow> move_files target files (emit (Moved f dst) (w\<lparr>disk := d\<rparr>)))"

text \<open>\<open>base\<close> is the value of \<open>BASE_FOLDER\<close>; \<open>mkdir\<close> stands outside every \<open>try\<close>.\<close>

fun apply_moves :: "path \<Rightarrow> folder_map \<Rightarrow> world \<Rightarrow> unit result" where
  "apply_moves base [] w = Returned () w"
| "apply_moves base ((folder, files) # rest) w =
     (let target = subpath base folder in
      case mkdir_exist_ok (disk w) target of
        Inl e \<Rightarrow> Raised e (emit (Mkdir target) w)
      | Inr d \<Rightarrow>
          apply_moves base rest (move_files target files (emit (Mkdir target) (w\<lparr>disk := d\<rparr>))))"

subsection \<open>The initial batch scan (lines 141-152)\<close>

definition files_to_process :: "path \<Rightarrow> filesystem \<Rightarrow> exn + path list" where
  "files_to_process base d =
     (case iterdir d base of
        Inl e \<Rightarrow> Inl e
      | Inr entries \<Rightarrow> Inr (filter (\<lambda>f. is_file d f \<and> \<not> should_ignore f) entries))"

definition initial_scan ::
  "(request \<Rightarrow> pystr) \<Rightarrow> (pystr \<Rightarrow> json option) \<Rightarrow> path \<Rightarrow> world \<Rightarrow> unit result" where
  "initial_scan provider loads base w =
     (case files_to_process base (disk w) of
        Inl e \<Rightarrow> Raised e w
      | Inr files \<Rightarrow>
          if files = [] then Returned () w
          else
            (case batch_classify provider loads files w of
               Raised e w1 \<Rightarrow> Raised e w1
             | Returned plan w1 \<Rightarrow> apply_moves base plan w1))"

subsection \<open>Live mode (lines 157-220)\<close>

definition classify_single_file ::
  "(request \<Rightarrow> pystr) \<Rightarrow> (pystr \<Rightarrow> json option) \<Rightarrow> path \<Rightarrow> path \<Rightarrow> world \<Rightarrow> pystr option result" where
  "classify_single_file provider loads base file_path w =
     (case iterdir (disk w) base of
        Inl e \<Rightarrow> Raised e w
      | Inr entries \<Rightarrow>
          (let existing_folders = map path_name (filter (is_dir (disk w)) entries);
               req = LiveRequest (path_name file_path) existing_folders;
               w1 = emit (Request req) w;
               raw = json_text provider req
           in Returned
                (case loads raw of
                   None \<Rightarrow> None
                 | Some data \<Rightarrow>
                     (case py_get data (lit ''folder'') (JStr []) of
                        Inl e \<Rightarrow> None
                      | Inr v \<Rightarrow>
                          (case py_sanitize_folder v of Inl e \<Rightarrow> None | Inr s \<Rightarrow> Some s)))
                w1))"

text \<open>
  What became of the file: left where it is by one of the five \<open>return\<close>s, moved, or a
  move that raised and was swallowed (lines 219-220).
\<close>

datatype outcome = Skipped | MovedTo pystr | MoveSwallowed exn

definition handle_new_file ::
  "(request \<Rightarrow> pystr) \<Rightarrow> (pystr \<Rightarrow> json option) \<Rightarrow> path \<Rightarrow> path \<Rightarrow> world \<Rightarrow> outcome result" where
  "handle_new_file provider loads base file_path w =
     (if \<not> is_file (disk w) file_path then Returned Skipped w
      else if parent file_path \<noteq> base then Returned Skipped w
      else if should_ignore file_path then Returned Skipped w
      else
        (case classify_single_file provider loads base file_path w of
           Raised e w1 \<Rightarrow> Raised e w1
         | Returned None w1 \<Rightarrow> Returned Skipped w1
         | Returned (Some folder) w1 \<Rightarrow>
             if folder = [] then Returned Skipped w1
             else
               (let target = subpath base folder;
                    dst = subpath target (path_name file_path)
                in if \<not> path_exists (disk w1) target then Returned Skipped w1
                   else
                     (case shutil_move (disk w1) file_path dst of
                        Inl e \<Rightarrow> Returned (MoveSwallowed e) (emit (MoveFailed file_path dst e) w1)
                      | Inr d \<Rightarrow>
                          Returned (MovedTo folder) (emit (Moved file_path dst) (w1\<lparr>disk := d\<rparr>))))))"

subsection \<open>Notions used in the statements\<close>

text \<open>The world a call ends in, whether it returned or raised.\<close>

fun world_of :: "'a result \<Rightarrow> world" where
  "world_of (Returned x w) = w"
| "world_of (Raised e w) = w"



fun mkdir_call :: "event \<Rightarrow> path option" where
  "mkdir_call (Mkdir p) = Some p"
| "mkdir_call _ = None"

definition mkdir_calls :: "event list \<Rightarrow> path list" where
  "mkdir_calls tr = List.map_filter mkdir_call tr"

text \<open>The moves a plan asks for, in the order \<open>apply_moves\<close> reaches them.\<close>

definition folder_moves :: "path \<Rightarrow> pystr \<times> path list \<Rightarrow> (path \<times> path) list" where
  "folder_moves base entry =
     map (\<lambda>f. (f, subpath (subpath base (fst entry)) (path_name f))) (snd entry)"

definition planned_moves :: "path \<Rightarrow> folder_map \<Rightarrow> (path \<times> path) list" where
  "planned_moves base plan = concat (map (folder_moves base) plan)"

text \<open>
  A plan over a set of candidate files: no key twice, every member list non-empty and
  made of candidates.
\<close>

definition plan_ok :: "path set \<Rightarrow> folder_map \<Rightarrow> bool" where
  "plan_ok S m \<longleftrightarrow> distinct (map fst m) \<and> (\<forall>(k, ms) \<in> set m. ms \<noteq> [] \<and> set ms \<subseteq> S)"

text \<open>An event that involves no ignored file: none is named in a request, none is moved.\<close>

fun spares_ignored :: "event \<Rightarrow> bool" where
  "spares_ignored (Request (BatchRequest names c)) = list_all (\<lambda>n. \<not> should_ignore [n]) names"
| "spares_ignored (Request (LiveRequest n folders)) = (\<not> should_ignore [n])"
| "spares_ignored (Moved src dst) = (\<not> should_ignore src)"
| "spares_ignored (MoveFailed src dst e) = (\<not> should_ignore src)"
| "spares_ignored _ = True"

subsection \<open>A concrete world\<close>

text \<open>
  A home directory \<open>/home/u\<close> whose watched folder holds two loose files and one
  ignored file; the general theorems are instantiated on it below.
\<close>

definition ex_home :: path where
  "ex_home = [lit ''home'', lit ''u'']"

definition ex_base :: path where
  "ex_base = BASE_FOLDER ex_home"

definition ex_disk :: filesystem where
  "ex_disk =
     [([lit ''home''], Dir), ([lit ''home'', lit ''u''], Dir),
      ([lit ''home'', lit ''u'', lit ''Projects''], Dir),
      (ex_base, Dir),
      (ex_base @ [lit ''a.txt''], File (lit ''A'')),
      (ex_base @ [lit ''.DS_Store''], File (lit ''D'')),
      (ex_base @ [lit ''b.txt''], File (lit ''B''))]"

definition ex_world :: world where
  "ex_world = \<lparr>disk = ex_disk, trace = []\<rparr>"


text \<open>A watched folder that is already tidy: one ignored file and one folder.\<close>

definition ex_tidy_disk :: filesystem where
  "ex_tidy_disk =
     [([lit ''home''], Dir), ([lit ''home'', lit ''u''], Dir),
      ([lit ''home'', lit ''u'', lit ''Projects''], Dir),
      (ex_base, Dir),
      (ex_base @ [lit ''.DS_Store''], File (lit ''D'')),
      (ex_base @ [lit ''Photos''], Dir),
      (ex_base @ [lit ''Photos'', lit ''x.jpg''], File (lit ''X''))]"

section \<open>Properties\<close>

lemma replace_char:
  "replace [a] [b] s = map (\<lambda>c. if c = a then b else c) s"
  by (induction s) auto

subsection \<open>Strings\<close>

lemma lit_slash: "lit ''/'' = [47]" "lit ''_'' = [95]"
  by (simp_all add: lit_def)

lemma replace_absent: "a \<notin> set s \<Longrightarrow> replace [a] [b] s = s"
  by (induction s) auto

lemma dropWhile_snoc: "\<not> P x \<Longrightarrow> dropWhile P (xs @ [x]) = dropWhile P xs @ [x]"
  by (induction xs) auto

lemma strip_Nil: "strip [] = []"
  by (simp add: strip_def)

lemma strip_Cons: "\<not> isspace x \<Longrightarrow> strip (x # t) = x # rev (dropWhile isspace (rev t))"
  by (simp add: strip_def dropWhile_snoc)

text \<open>A stripped string is empty or starts with a character that is not white space.\<close>

lemma strip_cases:
  "strip s = [] \<or> (\<exists>x t. \<not> isspace x \<and> strip s = x # rev (dropWhile isspace (rev t)))"
proof (cases "dropWhile isspace s")
  case Nil
  have "strip s = []"
    unfolding strip_def Nil by simp
  then show ?thesis ..
next
  case (Cons x t)
  then have "\<not> isspace x"
    by (metis hd_dropWhile list.sel(1) list.simps(3))
  with Cons have "strip s = x # rev (dropWhile isspace (rev t))"
    by (simp add: strip_def dropWhile_snoc)
  with \<open>\<not> isspace x\<close> show ?thesis by blast
qed

lemma strip_idem: "strip (strip s) = strip s"
proof -
  consider "strip s = []"
    | x t where "\<not> isspace x" "strip s = x # rev (dropWhile isspace (rev t))"
    using strip_cases by blast
  then show ?thesis
  proof cases
    case 1
    then show ?thesis by (simp add: strip_Nil)
  next
    case 2
    have "strip (x # rev (dropWhile isspace (rev t))) = x # rev (dropWhile isspace (rev t))"
      using 2(1) by (simp add: strip_Cons)
    with 2 show ?thesis by simp
  qed
qed

lemma set_strip: "set (strip s) \<subseteq> set s"
proof
  fix c assume "c \<in> set (strip s)"
  then have "c \<in> set (dropWhile isspace (rev (dropWhile isspace s)))"
    by (simp add: strip_def)
  then have "c \<in> set (rev (dropWhile isspace s))"
    by (rule set_dropWhileD)
  then show "c \<in> set s"
    using set_dropWhileD by fastforce
qed

lemma sanitize_no_slash: "47 \<notin> set (sanitize_folder x)"
proof -
  have "47 \<notin> set (replace [47] [95] x)"
    by (auto simp: replace_char)
  then show ?thesis
    using set_strip unfolding sanitize_folder_def lit_slash by blast
qed

subsection \<open>The name sanitizer\<close>

text \<open>
  C5. \<open>sanitize_folder\<close> is a total function from strings to strings, and sanitizing a
  sanitized name changes nothing: the first pass leaves no \<open>/\<close> to replace and no white
  space at either end to strip. This holds for every string, whatever separators and
  white space it contains.
\<close>

theorem sanitize_folder_idempotent:
  "sanitize_folder (sanitize_folder x) = sanitize_folder x"
proof -
  have "replace [47] [95] (sanitize_folder x) = sanitize_folder x"
    using sanitize_no_slash by (rule replace_absent)
  then have "sanitize_folder (sanitize_folder x) = strip (sanitize_folder x)"
    by (simp add: sanitize_folder_def lit_slash)
  also have "\<dots> = sanitize_folder x"
    by (simp add: sanitize_folder_def strip_idem)
  finally show ?thesis .
qed

subsection \<open>Building the plan\<close>


lemma keys_setdefault_append:
  "fst ` set (setdefault_append m k f) = insert k (fst ` set m)"
  by (induction m k f rule: setdefault_append.induct) auto

lemma distinct_setdefault_append:
  "distinct (map fst m) \<Longrightarrow> distinct (map fst (setdefault_append m k f))"
proof (induction m k f rule: setdefault_append.induct)
  case (1 k f)
  then show ?case by simp
next
  case (2 k' members m k f)
  then show ?case
    using keys_setdefault_append [of m k f] by (auto simp: image_iff)
qed

lemma members_setdefault_append:
  "(k', ms) \<in> set (setdefault_append m k f) \<Longrightarrow>
     (k', ms) \<in> set m \<or> (k' = k \<and> ms \<noteq> [] \<and> f \<in> set ms \<and> (\<forall>g \<in> set ms. g = f \<or> (\<exists>ms0. (k, ms0) \<in> set m \<and> g \<in> set ms0)))"
  by (induction m k f rule: setdefault_append.induct) (auto split: if_splits)

lemma plan_ok_setdefault_append:
  assumes "plan_ok S m" "f \<in> S"
  shows "plan_ok S (setdefault_append m k f)"
  unfolding plan_ok_def
proof (intro conjI)
  show "distinct (map fst (setdefault_append m k f))"
    using assms(1) by (simp add: plan_ok_def distinct_setdefault_append)
  show "\<forall>(k, ms)\<in>set (setdefault_append m k f). ms \<noteq> [] \<and> set ms \<subseteq> S"
  proof (clarify, intro conjI)
    fix k' ms assume a: "(k', ms) \<in> set (setdefault_append m k f)"
    from members_setdefault_append [OF a] show "ms \<noteq> []"
      using assms(1) by (auto simp: plan_ok_def)
    from members_setdefault_append [OF a] show "set ms \<subseteq> S"
      using assms by (fastforce simp: plan_ok_def)
  qed
qed

lemma assign_files_ok:
  "assign_files cf fn fl m = Inr m' \<Longrightarrow> plan_ok S m \<Longrightarrow> set fl \<subseteq> S \<Longrightarrow> plan_ok S m'"
proof (induction fl arbitrary: m)
  case Nil
  then show ?case by simp
next
  case (Cons f fl)
  then show ?case
    by (auto split: sum.splits if_splits intro: plan_ok_setdefault_append)
qed

lemma assign_files_keys:
  "assign_files cf fn fl m = Inr m' \<Longrightarrow>
     fst ` set m' = fst ` set m \<union> (if \<exists>f \<in> set fl. py_contains fn (path_name f) = Inr True then {cf} else {})"
proof (induction fl arbitrary: m)
  case Nil
  then show ?case by simp
next
  case (Cons f fl)
  then show ?case
    by (auto split: sum.splits if_splits simp: keys_setdefault_append)
qed

lemma build_folder_map_ok:
  "build_folder_map kvs files m = Inr m' \<Longrightarrow> plan_ok (set files) m \<Longrightarrow> plan_ok (set files) m'"
proof (induction kvs arbitrary: m)
  case Nil
  then show ?case by simp
next
  case (Cons kv kvs)
  obtain folder fn where kv: "kv = (folder, fn)" by (cases kv)
  from Cons.prems(1) obtain m1 where
    m1: "assign_files (sanitize_folder folder) fn files m = Inr m1"
    and rest: "build_folder_map kvs files m1 = Inr m'"
    by (auto simp: kv split: sum.splits)
  from assign_files_ok [OF m1 Cons.prems(2)] have "plan_ok (set files) m1" by simp
  with rest show ?case by (rule Cons.IH)
qed

lemma build_folder_map_keys:
  "build_folder_map kvs files m = Inr m' \<Longrightarrow>
     fst ` set m' = fst ` set m \<union>
       {sanitize_folder folder | folder fn. (folder, fn) \<in> set kvs \<and>
          (\<exists>f \<in> set files. py_contains fn (path_name f) = Inr True)}"
proof (induction kvs arbitrary: m)
  case Nil
  then show ?case by simp
next
  case (Cons kv kvs)
  obtain folder fn where kv: "kv = (folder, fn)" by (cases kv)
  from Cons.prems(1) obtain m1 where
    m1: "assign_files (sanitize_folder folder) fn files m = Inr m1"
    and rest: "build_folder_map kvs files m1 = Inr m'"
    by (auto simp: kv split: sum.splits)
  show ?case
    unfolding Cons.IH [OF rest] assign_files_keys [OF m1] kv
    by (auto split: if_splits)
qed

lemma batch_classify_cases:
  assumes "batch_classify provider loads files w = Returned plan w'"
  shows "(plan = [] \<and> loads (json_text provider (BatchRequest (map path_name files) MAX_FOLDERS)) = None)
       \<or> (\<exists>kvs. loads (json_text provider (BatchRequest (map path_name files) MAX_FOLDERS)) = Some (JObj kvs)
            \<and> build_folder_map kvs files [] = Inr plan)"
  using assms
  by (auto simp: batch_classify_def Let_def split: option.splits sum.splits elim: py_items.elims)

lemma plan_ok_Nil: "plan_ok S []"
  by (simp add: plan_ok_def)

lemma batch_classify_plan_ok:
  assumes "batch_classify provider loads files w = Returned plan w'"
  shows "plan_ok (set files) plan"
  using batch_classify_cases [OF assms] build_folder_map_ok plan_ok_Nil by blast

subsection \<open>Traces of \<open>move_files\<close> and \<open>apply_moves\<close>\<close>



lemma mkdir_calls_append: "mkdir_calls (xs @ ys) = mkdir_calls xs @ mkdir_calls ys"
  by (simp add: mkdir_calls_def map_filter_def)


lemma mkdir_calls_single:
  "mkdir_calls [Moved s d] = []" "mkdir_calls [MoveFailed s d e] = []"
  "mkdir_calls [Mkdir p] = [p]" "mkdir_calls [Request r] = []" "mkdir_calls [ParseFailed] = []"
  by (simp_all add: mkdir_calls_def map_filter_def)

lemma trace_emit: "trace (emit e w) = trace w @ [e]" and disk_emit: "disk (emit e w) = disk w"
  by (simp_all add: emit_def)


lemma move_files_mkdir_calls:
  "mkdir_calls (trace (move_files target files w)) = mkdir_calls (trace w)"
proof (induction files arbitrary: w)
  case Nil
  then show ?case by simp
next
  case (Cons f files)
  show ?case
    by (cases "shutil_move (disk w) f (subpath target (path_name f))")
      (simp_all add: Cons.IH Let_def trace_emit mkdir_calls_append mkdir_calls_single)
qed

lemma move_files_spares:
  "list_all spares_ignored (trace w) \<Longrightarrow> \<forall>f \<in> set files. \<not> should_ignore f \<Longrightarrow>
     list_all spares_ignored (trace (move_files target files w))"
proof (induction files arbitrary: w)
  case Nil
  then show ?case by simp
next
  case (Cons f files)
  show ?case
  proof (cases "shutil_move (disk w) f (subpath target (path_name f))")
    case (Inl e)
    have "list_all spares_ignored (trace (emit (MoveFailed f (subpath target (path_name f)) e) w))"
      using Cons.prems by (simp add: trace_emit)
    then show ?thesis
      using Cons.IH Cons.prems(2) Inl by (simp add: Let_def)
  next
    case (Inr d)
    have "list_all spares_ignored (trace (emit (Moved f (subpath target (path_name f))) (w\<lparr>disk := d\<rparr>)))"
      using Cons.prems by (simp add: trace_emit)
    then show ?thesis
      using Cons.IH Cons.prems(2) Inr by (simp add: Let_def)
  qed
qed



lemma planned_moves_append:
  "planned_moves base (xs @ ys) = planned_moves base xs @ planned_moves base ys"
  by (simp add: planned_moves_def)



lemma apply_moves_mkdir_calls:
  "set (mkdir_calls (trace (world_of (apply_moves base plan w)))) \<subseteq>
     set (mkdir_calls (trace w)) \<union> subpath base ` fst ` set plan"
proof (induction plan arbitrary: w)
  case Nil
  then show ?case by simp
next
  case (Cons entry plan)
  obtain folder files where entry: "entry = (folder, files)" by (cases entry)
  show ?case
  proof (cases "mkdir_exist_ok (disk w) (subpath base folder)")
    case (Inl e)
    then show ?thesis
      by (auto simp: entry Let_def trace_emit mkdir_calls_append mkdir_calls_single)
  next
    case (Inr d)
    let ?w1 = "move_files (subpath base folder) files (emit (Mkdir (subpath base folder)) (w\<lparr>disk := d\<rparr>))"
    have "mkdir_calls (trace ?w1) = mkdir_calls (trace w) @ [subpath base folder]"
      by (simp add: move_files_mkdir_calls trace_emit mkdir_calls_append mkdir_calls_single)
    with Cons.IH [of ?w1] Inr show ?thesis
      by (auto simp: entry Let_def)
  qed
qed

lemma apply_moves_spares:
  "list_all spares_ignored (trace w) \<Longrightarrow> \<forall>(k, ms) \<in> set plan. \<forall>f \<in> set ms. \<not> should_ignore f \<Longrightarrow>
     list_all spares_ignored (trace (world_of (apply_moves base plan w)))"
proof (induction plan arbitrary: w)
  case Nil
  then show ?case by simp
next
  case (Cons entry plan)
  obtain folder files where entry: "entry = (folder, files)" by (cases entry)
  show ?case
  proof (cases "mkdir_exist_ok (disk w) (subpath base folder)")
    case (Inl e)
    then show ?thesis
      using Cons.prems(1) by (simp add: entry Let_def trace_emit)
  next
    case (Inr d)
    let ?w0 = "emit (Mkdir (subpath base folder)) (w\<lparr>disk := d\<rparr>)"
    let ?w1 = "move_files (subpath base folder) files ?w0"
    have "list_all spares_ignored (trace ?w0)"
      using Cons.prems(1) by (simp add: trace_emit)
    moreover have "\<forall>f \<in> set files. \<not> should_ignore f"
      using Cons.prems(2) by (auto simp: entry)
    ultimately have "list_all spares_ignored (trace ?w1)"
      by (rule move_files_spares)
    moreover have "\<forall>(k, ms) \<in> set plan. \<forall>f \<in> set ms. \<not> should_ignore f"
      using Cons.prems(2) by auto
    ultimately have "list_all spares_ignored (trace (world_of (apply_moves base plan ?w1)))"
      by (rule Cons.IH)
    then show ?thesis
      using Inr by (simp add: entry Let_def)
  qed
qed

lemmas fs_simps = lookup_def is_dir_def is_file_def path_exists_def iterdir_def mkdir_exist_ok_def
  rename_file_def rename_dir_def shutil_move_def subpath_def path_name_def parent_def emit_def
  Let_def

lemmas example_defs = ex_home_def ex_base_def ex_disk_def ex_world_def BASE_FOLDER_def lit_def

subsection \<open>The batch plan\<close>

lemma ex_batch_run:
  "batch_classify (\<lambda>r. lit ''any text'')
     (\<lambda>t. Some (JObj [(lit ''Docs/2024 '', JArr [JStr (lit ''a.txt''), JStr (lit ''ghost.txt'')]),
                        (lit ''Empty'', JArr [JStr (lit ''nothing.bin'')])]))
     [ex_base @ [lit ''a.txt''], ex_base @ [lit ''b.txt'']] ex_world
   = Returned [(lit ''Docs_2024'', [ex_base @ [lit ''a.txt'']])]
       (emit (Request (BatchRequest [lit ''a.txt'', lit ''b.txt''] MAX_FOLDERS)) ex_world)"
  by (simp add: batch_classify_def fs_simps example_defs sanitize_folder_def strip_def isspace_def)

text \<open>
  C3. Whatever the provider answers, every member of every folder of the plan is one of
  the candidate files: a name the provider lists that is not the name of a candidate
  appears in no member list.
\<close>

theorem batch_classify_drops_unknown_names:
  assumes "batch_classify provider loads files w = Returned plan w'"
      and "(folder, members) \<in> set plan"
  shows "set members \<subseteq> set files \<and>
         (\<forall>n. n \<notin> set (map path_name files) \<longrightarrow> n \<notin> set (map path_name members))"
proof -
  have "set members \<subseteq> set files"
    using batch_classify_plan_ok [OF assms(1)] assms(2) by (auto simp: plan_ok_def)
  then show ?thesis by auto
qed

text \<open>
  On the concrete world: the provider lists \<open>ghost.txt\<close>, which is no candidate, and the
  plan holds \<open>a.txt\<close> alone.
\<close>

theorem batch_classify_drops_unknown_names_witness:
  "batch_classify (\<lambda>r. lit ''any text'')
     (\<lambda>t. Some (JObj [(lit ''Docs/2024 '', JArr [JStr (lit ''a.txt''), JStr (lit ''ghost.txt'')]),
                        (lit ''Empty'', JArr [JStr (lit ''nothing.bin'')])]))
     [ex_base @ [lit ''a.txt''], ex_base @ [lit ''b.txt'']] ex_world
   = Returned [(lit ''Docs_2024'', [ex_base @ [lit ''a.txt'']])]
       (emit (Request (BatchRequest [lit ''a.txt'', lit ''b.txt''] MAX_FOLDERS)) ex_world)
   \<and> set [ex_base @ [lit ''a.txt'']] \<subseteq> set [ex_base @ [lit ''a.txt''], ex_base @ [lit ''b.txt'']]
   \<and> lit ''ghost.txt'' \<notin> set (map path_name [ex_base @ [lit ''a.txt'']])"
proof -
  have member: "(lit ''Docs_2024'', [ex_base @ [lit ''a.txt'']])
      \<in> set [(lit ''Docs_2024'', [ex_base @ [lit ''a.txt'']])]"
    by simp
  have ghost: "lit ''ghost.txt'' \<notin> set (map path_name [ex_base @ [lit ''a.txt''], ex_base @ [lit ''b.txt'']])"
    by (simp add: path_name_def lit_def)
  from batch_classify_drops_unknown_names [OF ex_batch_run member] ghost
  show ?thesis
    using ex_batch_run by blast
qed

text \<open>
  C4. The plan has no key twice, and when the object decoded from the provider's answer
  has at most \<open>MAX_FOLDERS\<close> distinct keys, so has the plan: every key of the plan is the
  sanitized form of a key of the answer. (Nothing in \<open>batch_classify\<close> cuts a larger
  answer down.)
\<close>

theorem batch_classify_within_ceiling:
  assumes "batch_classify provider loads files w = Returned plan w'"
      and "\<forall>kvs. loads (json_text provider (BatchRequest (map path_name files) MAX_FOLDERS)) = Some (JObj kvs)
             \<longrightarrow> card (fst ` set kvs) \<le> MAX_FOLDERS"
  shows "card (fst ` set plan) \<le> MAX_FOLDERS \<and> length plan = card (fst ` set plan)"
proof -
  have d: "distinct (map fst plan)"
    using batch_classify_plan_ok [OF assms(1)] by (simp add: plan_ok_def)
  then have len: "length plan = card (fst ` set plan)"
    using distinct_card [of "map fst plan"] by simp
  from batch_classify_cases [OF assms(1)] show ?thesis
  proof
    assume "plan = [] \<and> loads (json_text provider (BatchRequest (map path_name files) MAX_FOLDERS)) = None"
    then show ?thesis by simp
  next
    assume "\<exists>kvs. loads (json_text provider (BatchRequest (map path_name files) MAX_FOLDERS)) = Some (JObj kvs)
        \<and> build_folder_map kvs files [] = Inr plan"
    then obtain kvs where
      l: "loads (json_text provider (BatchRequest (map path_name files) MAX_FOLDERS)) = Some (JObj kvs)"
      and b: "build_folder_map kvs files [] = Inr plan"
      by blast
    have "fst ` set plan \<subseteq> sanitize_folder ` fst ` set kvs"
      unfolding build_folder_map_keys [OF b] by force
    then have "card (fst ` set plan) \<le> card (sanitize_folder ` fst ` set kvs)"
      by (intro card_mono) simp_all
    also have "\<dots> \<le> card (fst ` set kvs)"
      by (intro card_image_le) simp
    also have "\<dots> \<le> MAX_FOLDERS"
      using assms(2) l by blast
    finally show ?thesis using len by simp
  qed
qed

text \<open>On the concrete world: two raw keys, one key in the plan.\<close>

theorem batch_classify_within_ceiling_witness:
  "card (fst ` set [(lit ''Docs_2024'', [ex_base @ [lit ''a.txt'']])]) \<le> MAX_FOLDERS
   \<and> length [(lit ''Docs_2024'', [ex_base @ [lit ''a.txt'']])] = 1"
proof -
  have "\<forall>kvs. (\<lambda>t. Some (JObj [(lit ''Docs/2024 '', JArr [JStr (lit ''a.txt''), JStr (lit ''ghost.txt'')]),
                        (lit ''Empty'', JArr [JStr (lit ''nothing.bin'')])]))
        (json_text (\<lambda>r. lit ''any text'')
           (BatchRequest (map path_name [ex_base @ [lit ''a.txt''], ex_base @ [lit ''b.txt'']]) MAX_FOLDERS))
        = Some (JObj kvs) \<longrightarrow> card (fst ` set kvs) \<le> MAX_FOLDERS"
    by (simp add: MAX_FOLDERS_def lit_def card_insert_if)
  from batch_classify_within_ceiling [OF ex_batch_run this]
  show ?thesis by simp
qed

text \<open>
  C10. Every key of the plan has a member: a key enters the plan only together with a
  file, so each key is the sanitized name of a raw folder that lists the name of some
  candidate. \<open>apply_moves\<close> calls \<open>mkdir\<close> for keys of the plan only, hence never for a
  raw folder that matched no candidate.
\<close>

theorem batch_plan_has_no_empty_group:
  assumes "batch_classify provider loads files w = Returned plan w'"
  shows "(\<forall>(folder, members) \<in> set plan. members \<noteq> []) \<and>
         (\<forall>folder \<in> fst ` set plan.
            \<exists>kvs raw_folder filenames.
              loads (json_text provider (BatchRequest (map path_name files) MAX_FOLDERS)) = Some (JObj kvs) \<and>
              (raw_folder, filenames) \<in> set kvs \<and> sanitize_folder raw_folder = folder \<and>
              (\<exists>f \<in> set files. py_contains filenames (path_name f) = Inr True)) \<and>
         (\<forall>base w2. set (mkdir_calls (trace (world_of (apply_moves base plan w2))))
            \<subseteq> set (mkdir_calls (trace w2)) \<union> subpath base ` fst ` set plan)"
proof (intro conjI)
  show "\<forall>(folder, members) \<in> set plan. members \<noteq> []"
    using batch_classify_plan_ok [OF assms] by (auto simp: plan_ok_def)
  show "\<forall>folder \<in> fst ` set plan.
            \<exists>kvs raw_folder filenames.
              loads (json_text provider (BatchRequest (map path_name files) MAX_FOLDERS)) = Some (JObj kvs) \<and>
              (raw_folder, filenames) \<in> set kvs \<and> sanitize_folder raw_folder = folder \<and>
              (\<exists>f \<in> set files. py_contains filenames (path_name f) = Inr True)"
  proof
    fix folder assume k: "folder \<in> fst ` set plan"
    then have "plan \<noteq> []" by auto
    with batch_classify_cases [OF assms] obtain kvs where
      l: "loads (json_text provider (BatchRequest (map path_name files) MAX_FOLDERS)) = Some (JObj kvs)"
      and b: "build_folder_map kvs files [] = Inr plan"
      by blast
    from k obtain raw_folder filenames where
      "(raw_folder, filenames) \<in> set kvs" "sanitize_folder raw_folder = folder"
      "\<exists>f \<in> set files. py_contains filenames (path_name f) = Inr True"
      unfolding build_folder_map_keys [OF b] by auto
    with l show "\<exists>kvs raw_folder filenames.
              loads (json_text provider (BatchRequest (map path_name files) MAX_FOLDERS)) = Some (JObj kvs) \<and>
              (raw_folder, filenames) \<in> set kvs \<and> sanitize_folder raw_folder = folder \<and>
              (\<exists>f \<in> set files. py_contains filenames (path_name f) = Inr True)"
      by blast
  qed
  show "\<forall>base w2. set (mkdir_calls (trace (world_of (apply_moves base plan w2))))
            \<subseteq> set (mkdir_calls (trace w2)) \<union> subpath base ` fst ` set plan"
    using apply_moves_mkdir_calls by blast
qed

text \<open>
  On the concrete world: the raw folder \<open>Empty\<close> lists no candidate, is no key of the
  plan, and the only directory made is that of the one key.
\<close>

theorem batch_plan_has_no_empty_group_witness:
  "batch_classify (\<lambda>r. lit ''any text'')
     (\<lambda>t. Some (JObj [(lit ''Docs/2024 '', JArr [JStr (lit ''a.txt''), JStr (lit ''ghost.txt'')]),
                        (lit ''Empty'', JArr [JStr (lit ''nothing.bin'')])]))
     [ex_base @ [lit ''a.txt''], ex_base @ [lit ''b.txt'']] ex_world
   = Returned [(lit ''Docs_2024'', [ex_base @ [lit ''a.txt'']])]
       (emit (Request (BatchRequest [lit ''a.txt'', lit ''b.txt''] MAX_FOLDERS)) ex_world)
   \<and> lit ''Empty'' \<notin> fst ` set [(lit ''Docs_2024'', [ex_base @ [lit ''a.txt'']])]
   \<and> set (mkdir_calls (trace (world_of
        (apply_moves ex_base [(lit ''Docs_2024'', [ex_base @ [lit ''a.txt'']])] ex_world))))
      \<subseteq> {ex_base @ [lit ''Docs_2024'']}"
proof -
  from batch_plan_has_no_empty_group [OF ex_batch_run]
  have "set (mkdir_calls (trace (world_of
        (apply_moves ex_base [(lit ''Docs_2024'', [ex_base @ [lit ''a.txt'']])] ex_world))))
      \<subseteq> set (mkdir_calls (trace ex_world)) \<union> subpath ex_base ` fst ` set [(lit ''Docs_2024'', [ex_base @ [lit ''a.txt'']])]"
    by blast
  moreover have "set (mkdir_calls (trace ex_world)) = {}"
    by (simp add: ex_world_def mkdir_calls_def map_filter_def)
  moreover have "subpath ex_base (lit ''Docs_2024'') = ex_base @ [lit ''Docs_2024'']"
    by (simp add: subpath_def lit_def)
  moreover have "lit ''Empty'' \<notin> fst ` set [(lit ''Docs_2024'', [ex_base @ [lit ''a.txt'']])]"
    by (simp add: lit_def)
  ultimately show ?thesis
    using ex_batch_run by simp
qed

subsection \<open>Applying the plan\<close>




subsection \<open>Live mode\<close>





lemma classify_single_file_cases:
  "(\<exists>e. classify_single_file provider loads base file_path w = Raised e w) \<or>
   (\<exists>x folders. classify_single_file provider loads base file_path w =
        Returned x (emit (Request (LiveRequest (path_name file_path) folders)) w))"
  by (cases "iterdir (disk w) base") (auto simp: classify_single_file_def Let_def)

lemma should_ignore_name: "should_ignore [path_name p] = should_ignore p"
  by (simp add: should_ignore_def path_name_def)

lemma handle_new_file_cases:
  assumes "handle_new_file provider loads base file_path w = r"
  shows "(\<exists>e. r = Raised e w)
       \<or> r = Returned Skipped w
       \<or> (\<not> should_ignore file_path \<and> is_file (disk w) file_path \<and> parent file_path = base \<and>
          (\<exists>folders w1. w1 = emit (Request (LiveRequest (path_name file_path) folders)) w \<and>
            (r = Returned Skipped w1
             \<or> (\<exists>folder e. folder \<noteq> [] \<and> path_exists (disk w) (subpath base folder) \<and>
                   shutil_move (disk w) file_path (subpath (subpath base folder) (path_name file_path)) = Inl e \<and>
                   r = Returned (MoveSwallowed e)
                         (emit (MoveFailed file_path (subpath (subpath base folder) (path_name file_path)) e) w1))
             \<or> (\<exists>folder d. folder \<noteq> [] \<and> path_exists (disk w) (subpath base folder) \<and>
                   shutil_move (disk w) file_path (subpath (subpath base folder) (path_name file_path)) = Inr d \<and>
                   r = Returned (MovedTo folder)
                         (emit (Moved file_path (subpath (subpath base folder) (path_name file_path))) (w1\<lparr>disk := d\<rparr>))))))"
proof (cases "\<not> is_file (disk w) file_path \<or> parent file_path \<noteq> base \<or> should_ignore file_path")
  case True
  with assms show ?thesis by (auto simp: handle_new_file_def split: if_splits)
next
  case False
  from classify_single_file_cases [of provider loads base file_path w] show ?thesis
  proof (elim disjE exE)
    fix e assume "classify_single_file provider loads base file_path w = Raised e w"
    with False assms show ?thesis by (auto simp: handle_new_file_def)
  next
    fix x folders
    assume c: "classify_single_file provider loads base file_path w =
        Returned x (emit (Request (LiveRequest (path_name file_path) folders)) w)"
    show ?thesis
    proof (cases x)
      case None
      with False assms c show ?thesis by (auto simp: handle_new_file_def)
    next
      case (Some folder)
      with False assms c show ?thesis
        by (auto simp: handle_new_file_def Let_def disk_emit split: if_splits sum.splits)
    qed
  qed
qed









lemmas run_defs = handle_new_file_def classify_single_file_def batch_classify_def initial_scan_def
  files_to_process_def json_text_def strip_code_fence_def sanitize_folder_def strip_def
  isspace_def should_ignore_def IGNORED_FILENAMES_def MAX_FOLDERS_def




subsection \<open>Ignored files and the start-up scan\<close>

lemma files_to_process_members:
  assumes "files_to_process base d = Inr files" and "f \<in> set files"
  shows "is_file d f \<and> \<not> should_ignore f \<and> f \<noteq> [] \<and> parent f = base"
  using assms
  by (auto simp: files_to_process_def iterdir_def parent_def split: sum.splits option.splits node.splits)

lemma files_to_process_empty:
  assumes "is_dir d base" and "\<forall>p. p \<noteq> [] \<and> parent p = base \<and> is_file d p \<longrightarrow> should_ignore p"
  shows "files_to_process base d = Inr []"
proof -
  have "filter (\<lambda>f. is_file d f \<and> \<not> should_ignore f)
          (filter (\<lambda>q. q \<noteq> [] \<and> butlast q = base) (map fst d)) = []"
    using assms(2) by (auto simp: filter_empty_conv parent_def)
  with assms(1) show ?thesis
    by (simp add: files_to_process_def iterdir_def is_dir_def)
qed

lemma batch_classify_world:
  "world_of (batch_classify provider loads files w) = emit (Request (BatchRequest (map path_name files) MAX_FOLDERS)) w
   \<or> world_of (batch_classify provider loads files w) =
       emit ParseFailed (emit (Request (BatchRequest (map path_name files) MAX_FOLDERS)) w)"
  by (auto simp: batch_classify_def Let_def split: option.splits sum.splits)

lemma batch_classify_spares:
  assumes "list_all spares_ignored (trace w)" and "\<forall>f \<in> set files. \<not> should_ignore f"
  shows "list_all spares_ignored (trace (world_of (batch_classify provider loads files w)))"
proof -
  have "spares_ignored (Request (BatchRequest (map path_name files) MAX_FOLDERS))"
    using assms(2) by (simp add: list_all_iff should_ignore_name)
  with assms(1) batch_classify_world [of provider loads files w] show ?thesis
    by (auto simp: trace_emit)
qed

lemma initial_scan_spares:
  assumes "list_all spares_ignored (trace w)"
  shows "list_all spares_ignored (trace (world_of (initial_scan provider loads base w)))"
proof (cases "files_to_process base (disk w)")
  case (Inl e)
  with assms show ?thesis by (simp add: initial_scan_def)
next
  case (Inr files)
  have keep: "\<forall>f \<in> set files. \<not> should_ignore f"
    using files_to_process_members [OF Inr] by blast
  show ?thesis
  proof (cases "files = []")
    case True
    with Inr assms show ?thesis by (simp add: initial_scan_def)
  next
    case False
    have b: "list_all spares_ignored (trace (world_of (batch_classify provider loads files w)))"
      using assms keep by (rule batch_classify_spares)
    show ?thesis
    proof (cases "batch_classify provider loads files w")
      case (Raised e w1)
      with b Inr False show ?thesis by (simp add: initial_scan_def)
    next
      case (Returned plan w1)
      have "\<forall>(k, ms) \<in> set plan. \<forall>f \<in> set ms. \<not> should_ignore f"
        using batch_classify_plan_ok [OF Returned] keep by (fastforce simp: plan_ok_def)
      moreover from b Returned have "list_all spares_ignored (trace w1)" by simp
      ultimately have "list_all spares_ignored (trace (world_of (apply_moves base plan w1)))"
        by (intro apply_moves_spares)
      with Inr False Returned show ?thesis by (simp add: initial_scan_def)
    qed
  qed
qed

lemma handle_new_file_spares:
  assumes "list_all spares_ignored (trace w)"
  shows "list_all spares_ignored (trace (world_of (handle_new_file provider loads base file_path w)))"
  using handle_new_file_cases [OF refl, of provider loads base file_path w] assms
  by (auto simp: trace_emit should_ignore_name)

lemma handle_new_file_ignored:
  "should_ignore file_path \<Longrightarrow> handle_new_file provider loads base file_path w = Returned Skipped w"
  by (simp add: handle_new_file_def)

text \<open>
  C6. A file whose name starts with a dot or is one of \<open>IGNORED_FILENAMES\<close> is no
  candidate of the start-up scan, and no event of either mode involves one: a trace
  that names no ignored file in a request and moves none still does so after
  \<open>initial_scan\<close> and after \<open>handle_new_file\<close>. For an ignored file \<open>handle_new_file\<close>
  returns at once, with no provider call and the world as it was.
\<close>

theorem ignored_files_never_classified_or_moved:
  "(list_all spares_ignored (trace w) \<longrightarrow>
      list_all spares_ignored (trace (world_of (initial_scan provider loads base w))))
   \<and> (list_all spares_ignored (trace w) \<longrightarrow>
      list_all spares_ignored (trace (world_of (handle_new_file provider loads base file_path w))))
   \<and> (should_ignore file_path \<longrightarrow>
      handle_new_file provider loads base file_path w = Returned Skipped w)
   \<and> (\<forall>files. files_to_process base (disk w) = Inr files \<longrightarrow> (\<forall>f \<in> set files. \<not> should_ignore f))"
  using initial_scan_spares handle_new_file_spares handle_new_file_ignored files_to_process_members
  by blast

text \<open>
  On the concrete world: the provider lists \<open>.DS_Store\<close> under a folder, yet it was
  never a candidate and is not moved; handed to \<open>handle_new_file\<close> it is skipped and
  nothing is asked of the provider.
\<close>

lemma ex_scan_run:
  \<open>initial_scan (\<lambda>r. lit ''{"Docs": ["a.txt", ".DS_Store"]}'')
      (\<lambda>t. if t = lit ''{"Docs": ["a.txt", ".DS_Store"]}''
            then Some (JObj [(lit ''Docs'', JArr [JStr (lit ''a.txt''), JStr (lit ''.DS_Store'')])])
            else None)
      ex_base ex_world
   = Returned ()
       \<lparr>disk =
          [([lit ''home''], Dir), ([lit ''home'', lit ''u''], Dir),
           ([lit ''home'', lit ''u'', lit ''Projects''], Dir),
           (ex_base, Dir),
           (ex_base @ [lit ''.DS_Store''], File (lit ''D'')),
           (ex_base @ [lit ''b.txt''], File (lit ''B'')),
           (ex_base @ [lit ''Docs''], Dir),
           (ex_base @ [lit ''Docs'', lit ''a.txt''], File (lit ''A''))],
        trace =
          [Request (BatchRequest [lit ''a.txt'', lit ''b.txt''] MAX_FOLDERS),
           Mkdir (ex_base @ [lit ''Docs'']),
           Moved (ex_base @ [lit ''a.txt'']) (ex_base @ [lit ''Docs'', lit ''a.txt''])]\<rparr>\<close>
  by (simp add: run_defs fs_simps example_defs)

theorem ignored_files_never_classified_or_moved_witness:
  \<open>should_ignore (ex_base @ [lit ''.DS_Store''])
   \<and> list_all spares_ignored (trace (world_of
        (initial_scan (\<lambda>r. lit ''{"Docs": ["a.txt", ".DS_Store"]}'')
           (\<lambda>t. if t = lit ''{"Docs": ["a.txt", ".DS_Store"]}''
              then Some (JObj [(lit ''Docs'', JArr [JStr (lit ''a.txt''), JStr (lit ''.DS_Store'')])])
              else None)
           ex_base ex_world)))
   \<and> trace (world_of
        (initial_scan (\<lambda>r. lit ''{"Docs": ["a.txt", ".DS_Store"]}'')
           (\<lambda>t. if t = lit ''{"Docs": ["a.txt", ".DS_Store"]}''
              then Some (JObj [(lit ''Docs'', JArr [JStr (lit ''a.txt''), JStr (lit ''.DS_Store'')])])
              else None)
           ex_base ex_world))
      = [Request (BatchRequest [lit ''a.txt'', lit ''b.txt''] MAX_FOLDERS),
         Mkdir (ex_base @ [lit ''Docs'']),
         Moved (ex_base @ [lit ''a.txt'']) (ex_base @ [lit ''Docs'', lit ''a.txt''])]
   \<and> handle_new_file (\<lambda>r. lit ''{"folder": "Docs"}'')
        (\<lambda>t. Some (JObj [(lit ''folder'', JStr (lit ''Docs''))]))
        ex_base (ex_base @ [lit ''.DS_Store'']) ex_world
      = Returned Skipped ex_world\<close>
proof -
  have ign: "should_ignore (ex_base @ [lit ''.DS_Store''])"
    by (simp add: should_ignore_def path_name_def lit_def)
  have start: "list_all spares_ignored (trace ex_world)"
    by (simp add: ex_world_def)
  note inst = ignored_files_never_classified_or_moved
    [where w = ex_world and base = ex_base and file_path = "ex_base @ [lit ''.DS_Store'']"]
  from inst start have \<open>list_all spares_ignored (trace (world_of
        (initial_scan (\<lambda>r. lit ''{"Docs": ["a.txt", ".DS_Store"]}'')
           (\<lambda>t. if t = lit ''{"Docs": ["a.txt", ".DS_Store"]}''
              then Some (JObj [(lit ''Docs'', JArr [JStr (lit ''a.txt''), JStr (lit ''.DS_Store'')])])
              else None)
           ex_base ex_world)))\<close>
    by blast
  moreover from inst ign have \<open>handle_new_file (\<lambda>r. lit ''{"folder": "Docs"}'')
        (\<lambda>t. Some (JObj [(lit ''folder'', JStr (lit ''Docs''))]))
        ex_base (ex_base @ [lit ''.DS_Store'']) ex_world
      = Returned Skipped ex_world\<close>
    by blast
  ultimately show ?thesis
    using ign by (simp add: ex_scan_run)
qed

text \<open>
  C8. When every plain file directly in the watched folder is ignored (or there is
  none), \<open>files_to_process\<close> is empty and the start-up scan ends there: no provider
  call is recorded and the disk is as it was.
\<close>

theorem empty_scan_does_nothing:
  assumes "is_dir (disk w) base"
      and "\<forall>p. p \<noteq> [] \<and> parent p = base \<and> is_file (disk w) p \<longrightarrow> should_ignore p"
  shows "files_to_process base (disk w) = Inr [] \<and>
         initial_scan provider loads base w = Returned () w"
  using files_to_process_empty [OF assms] by (simp add: initial_scan_def)

text \<open>On the tidy folder: one ignored file and one directory, so nothing happens.\<close>

theorem empty_scan_does_nothing_witness:
  \<open>is_dir ex_tidy_disk ex_base
   \<and> iterdir ex_tidy_disk ex_base = Inr [ex_base @ [lit ''.DS_Store''], ex_base @ [lit ''Photos'']]
   \<and> should_ignore (ex_base @ [lit ''.DS_Store'']) \<and> is_dir ex_tidy_disk (ex_base @ [lit ''Photos''])
   \<and> initial_scan (\<lambda>r. lit ''{"Docs": ["x.jpg"]}'')
        (\<lambda>t. Some (JObj [(lit ''Docs'', JArr [JStr (lit ''x.jpg'')])]))
        ex_base \<lparr>disk = ex_tidy_disk, trace = []\<rparr>
      = Returned () \<lparr>disk = ex_tidy_disk, trace = []\<rparr>\<close>
proof -
  have d: "is_dir (disk \<lparr>disk = ex_tidy_disk, trace = []\<rparr>) ex_base"
    by (simp add: fs_simps example_defs ex_tidy_disk_def)
  have none: "\<forall>p. p \<noteq> [] \<and> parent p = ex_base \<and> is_file (disk \<lparr>disk = ex_tidy_disk, trace = []\<rparr>) p
      \<longrightarrow> should_ignore p"
    by (auto simp: fs_simps should_ignore_def example_defs ex_tidy_disk_def
          split: if_splits option.splits node.splits)
  have ls: "iterdir ex_tidy_disk ex_base = Inr [ex_base @ [lit ''.DS_Store''], ex_base @ [lit ''Photos'']]"
    by (simp add: fs_simps example_defs ex_tidy_disk_def)
  have ign: "should_ignore (ex_base @ [lit ''.DS_Store''])"
    by (simp add: should_ignore_def path_name_def lit_def)
  have ph: "is_dir ex_tidy_disk (ex_base @ [lit ''Photos''])"
    by (simp add: fs_simps example_defs ex_tidy_disk_def)
  from empty_scan_does_nothing [OF d none] d ls ign ph show ?thesis
    by simp
qed

subsection \<open>Provider answers that do not parse\<close>

text \<open>
  When \<open>json.loads\<close> raises, both classifiers degrade as the code intends: the batch
  plan is empty and applying it does nothing; the live classifier returns \<open>None\<close> and
  the file is skipped.
\<close>

lemma unparsable_answer_degrades:
  assumes "\<forall>t. loads t = None"
  shows "batch_classify provider loads files w =
           Returned [] (emit ParseFailed (emit (Request (BatchRequest (map path_name files) MAX_FOLDERS)) w))
       \<and> apply_moves base [] w' = Returned () w'
       \<and> ((\<exists>e. classify_single_file provider loads base file_path w = Raised e w) \<or>
          (\<exists>w1. classify_single_file provider loads base file_path w = Returned None w1))
       \<and> disk (world_of (handle_new_file provider loads base file_path w)) = disk w"
proof -
  have live: "(\<exists>e. classify_single_file provider loads base file_path w = Raised e w) \<or>
          (\<exists>w1. classify_single_file provider loads base file_path w = Returned None w1 \<and> disk w1 = disk w)"
    using assms
    by (cases "iterdir (disk w) base") (simp_all add: classify_single_file_def Let_def disk_emit)
  then have "disk (world_of (handle_new_file provider loads base file_path w)) = disk w"
    by (auto simp: handle_new_file_def)
  with live assms show ?thesis
    by (auto simp: batch_classify_def Let_def)
qed

text \<open>
  C2 fails in the batch path for an answer that parses but is not an object. The
  provider answers \<open>[]\<close>; \<open>json.loads\<close> returns the empty list; \<open>data.items()\<close> (line 112,
  outside the \<open>try\<close> of lines 103-108) raises \<open>AttributeError\<close>, which leaves
  \<open>batch_classify\<close> and the start-up scan. The live path, whose \<open>try\<close> covers the use
  of the decoded value, returns \<open>None\<close> for the same answer.
\<close>

theorem batch_classify_list_response_raises:
  \<open>batch_classify (\<lambda>r. lit ''[]'') (\<lambda>t. if t = lit ''[]'' then Some (JArr []) else None)
      [ex_base @ [lit ''a.txt''], ex_base @ [lit ''b.txt'']] ex_world
     = Raised AttributeError
         (emit (Request (BatchRequest [lit ''a.txt'', lit ''b.txt''] MAX_FOLDERS)) ex_world)
   \<and> initial_scan (\<lambda>r. lit ''[]'') (\<lambda>t. if t = lit ''[]'' then Some (JArr []) else None)
        ex_base ex_world
     = Raised AttributeError
         (emit (Request (BatchRequest [lit ''a.txt'', lit ''b.txt''] MAX_FOLDERS)) ex_world)
   \<and> classify_single_file (\<lambda>r. lit ''[]'') (\<lambda>t. if t = lit ''[]'' then Some (JArr []) else None)
        ex_base (ex_base @ [lit ''a.txt'']) ex_world
     = Returned None (emit (Request (LiveRequest (lit ''a.txt'') [])) ex_world)\<close>
  by (simp add: run_defs fs_simps example_defs)

subsection \<open>Code fences\<close>

lemma lit_fence:
  "lit ''```'' = [96, 96, 96]"
  "lit ''```json'' = [96, 96, 96, 106, 115, 111, 110]"
  "lit ''json'' = [106, 115, 111, 110]"
  "lit ''`'' = [96]"
  by (simp_all add: lit_def)

lemma replace_no_occurrence:
  "old \<noteq> [] \<Longrightarrow> \<not> sublist old s \<Longrightarrow> replace old new s = s"
proof (induction s)
  case Nil
  then show ?case by simp
next
  case (Cons c s)
  then show ?case by (simp add: sublist_Cons_right)
qed

lemma replace_at_prefix:
  "old \<noteq> [] \<Longrightarrow> replace old new (old @ s) = new @ replace old new s"
  by (cases old) simp_all

lemma prefix_append_disjoint:
  assumes "prefix xs (ys @ zs)" and "set xs \<inter> set zs = {}"
  shows "prefix xs ys"
proof -
  from assms(1) consider "prefix xs ys" | us where "xs = ys @ us" "prefix us zs"
    by (auto simp: prefix_append)
  then show ?thesis
  proof cases
    case 1
    then show ?thesis .
  next
    case 2
    then have "set us \<subseteq> set xs \<inter> set zs"
      using set_mono_prefix by fastforce
    with assms(2) have "us = []" by auto
    with 2 show ?thesis by simp
  qed
qed

lemma sublist_trans: "sublist xs ys \<Longrightarrow> sublist ys zs \<Longrightarrow> sublist xs zs"
  by (rule sublist_order.order_trans)

lemma sublist_strip: "sublist (strip a) a"
proof -
  have "sublist (rev (dropWhile isspace (rev (dropWhile isspace a)))) (dropWhile isspace a)"
    by (simp add: sublist_rev_left)
  then show ?thesis
    unfolding strip_def using sublist_dropWhile by (rule sublist_trans)
qed

text \<open>No \<open>```json\<close> lies across the end of \<open>a\<close> and a closing fence.\<close>

lemma no_json_fence_before_close:
  assumes "\<not> sublist [96, 96, 96] a"
  shows "\<not> sublist [96, 96, 96, 106, 115, 111, 110] (a @ [96, 96, 96 :: nat])"
proof
  assume "sublist [96, 96, 96, 106, 115, 111, 110] (a @ [96, 96, 96 :: nat])"
  then consider "sublist [96, 96, 96, 106, 115, 111, 110] a"
    | "sublist [96, 96, 96, 106, 115, 111, 110] [96, 96, 96 :: nat]"
    | xs1 xs2 where "[96, 96, 96, 106, 115, 111, 110] = xs1 @ xs2" "suffix xs1 a"
        "prefix xs2 [96, 96, 96 :: nat]"
    unfolding sublist_append by blast
  then show False
  proof cases
    case 1
    have "sublist [96, 96, 96] [96, 96, 96, 106, 115, 111, 110 :: nat]"
      by (rule prefix_imp_sublist) simp
    from this 1 have "sublist [96, 96, 96] a" by (rule sublist_trans)
    with assms show False ..
  next
    case 2
    then show False using sublist_length_le by fastforce
  next
    case 3
    show False
    proof (cases "xs2 = []")
      case True
      with 3 have "suffix [96, 96, 96, 106, 115, 111, 110] a" by simp
      then have "sublist [96, 96, 96, 106, 115, 111, 110] a" by (rule suffix_imp_sublist)
      moreover have "sublist [96, 96, 96] [96, 96, 96, 106, 115, 111, 110 :: nat]"
        by (rule prefix_imp_sublist) simp
      ultimately have "sublist [96, 96, 96] a" using sublist_trans by blast
      with assms show False ..
    next
      case False
      then have "last xs2 \<in> set xs2" by simp
      moreover from 3(3) have "set xs2 \<subseteq> {96}" using set_mono_prefix by fastforce
      ultimately have "last xs2 = 96" by auto
      moreover from 3(1) False have "last xs2 = 110"
        by (metis last_appendR last.simps list.simps(3) last_ConsR)
      ultimately show False by simp
    qed
  qed
qed

text \<open>
  Removing every \<open>```\<close> from \<open>a\<close> followed by a closing fence gives \<open>a\<close> back: when \<open>a\<close>
  ends in one or two backquotes the match starts inside them, and as many remain.
\<close>

lemma replace_close_fence:
  "\<not> sublist [96, 96, 96] a \<Longrightarrow> replace [96, 96, 96] [] (a @ [96, 96, 96]) = a"
proof (induction a)
  case Nil
  show ?case by simp
next
  case (Cons c a)
  from Cons.prems have np: "\<not> prefix [96, 96, 96] (c # a)" and ns: "\<not> sublist [96, 96, 96] a"
    by (simp_all add: sublist_Cons_right)
  show ?case
  proof (cases "prefix [96, 96, 96] (c # a @ [96, 96, 96])")
    case False
    with Cons.IH [OF ns] show ?thesis by auto
  next
    case True
    then have c: "c = 96" and p2: "prefix [96, 96] (a @ [96, 96, 96])" by simp_all
    from np c have na: "\<not> prefix [96, 96] a" by simp
    have "a = [] \<or> a = [96]"
    proof (cases a)
      case Nil
      then show ?thesis by simp
    next
      case (Cons x a')
      with p2 have x: "x = 96" by simp
      show ?thesis
      proof (cases a')
        case Nil
        with Cons x show ?thesis by simp
      next
        case (Cons y a'')
        with \<open>a = x # a'\<close> p2 x have "y = 96" by simp
        with Cons \<open>a = x # a'\<close> x na show ?thesis by simp
      qed
    qed
    then show ?thesis
      using c by auto
  qed
qed

lemma strip_pad:
  assumes "list_all isspace p" "list_all isspace q" "x \<noteq> []"
      and "\<not> isspace (hd x)" "\<not> isspace (last x)"
  shows "strip (p @ x @ q) = x"
proof -
  from assms(3) obtain h t where x: "x = h # t" by (cases x) auto
  have "dropWhile isspace (p @ x @ q) = dropWhile isspace (x @ q)"
    using assms(1) by (intro dropWhile_append2) (simp add: list_all_iff)
  then have "dropWhile isspace (p @ x @ q) = x @ q"
    using assms(4) by (simp add: x)
  moreover have "dropWhile isspace (rev q @ rev x) = rev x"
  proof -
    have r: "rev x = last x # rev (butlast x)"
      using assms(3) by (metis append_butlast_last_id rev.simps(2) rev_append rev_rev_ident
          append_Cons append_Nil rev_singleton_conv)
    have "dropWhile isspace (rev q @ rev x) = dropWhile isspace (rev x)"
      using assms(2) by (intro dropWhile_append2) (simp add: list_all_iff)
    also have "\<dots> = rev x"
      unfolding r using assms(5) by simp
    finally show ?thesis .
  qed
  ultimately show ?thesis
    by (simp add: strip_def)
qed

lemma strip_code_fence_json:
  assumes "\<not> sublist (lit ''```'') a"
  shows "strip_code_fence (lit ''```json'' @ a @ lit ''```'') = strip a"
proof -
  from assms have ns: "\<not> sublist [96, 96, 96] a" by (simp add: lit_fence)
  have "replace [96, 96, 96, 106, 115, 111, 110] [] ([96, 96, 96, 106, 115, 111, 110] @ a @ [96, 96, 96])
      = replace [96, 96, 96, 106, 115, 111, 110] [] (a @ [96, 96, 96])"
    by (subst replace_at_prefix) simp_all
  also have "\<dots> = a @ [96, 96, 96]"
    using no_json_fence_before_close [OF ns] by (intro replace_no_occurrence) simp_all
  finally have "replace (lit ''```'') [] (replace (lit ''```json'') [] (lit ''```json'' @ a @ lit ''```'')) = a"
    using replace_close_fence [OF ns] by (simp only: lit_fence)
  then show ?thesis
    by (simp add: strip_code_fence_def lit_fence)
qed

lemma no_json_fence_plain:
  assumes "\<not> sublist [96, 96, 96] a" "\<not> prefix [96] a" "\<not> prefix [106, 115, 111, 110] a"
  shows "replace [96, 96, 96, 106, 115, 111, 110] [] ([96, 96, 96] @ a @ [96, 96, 96])
           = [96, 96, 96] @ a @ [96, 96, 96]"
proof -
  have p0: "\<not> prefix [106, 115, 111, 110] (a @ [96, 96, 96])"
    using prefix_append_disjoint [of "[106, 115, 111, 110]" a "[96, 96, 96]"] assms(3) by auto
  have p1: "\<not> prefix (96 # xs) (a @ [96, 96, 96]) \<or> a = []" for xs
    using assms(2) by (cases a) auto
  have rest: "replace [96, 96, 96, 106, 115, 111, 110] [] (a @ [96, 96, 96]) = a @ [96, 96, 96]"
    using no_json_fence_before_close [OF assms(1)] by (intro replace_no_occurrence) simp_all
  show ?thesis
  proof (cases "a = []")
    case True
    then show ?thesis by simp
  next
    case False
    with p1 have "\<not> prefix [96, 106, 115, 111, 110] (a @ [96, 96, 96])"
      "\<not> prefix [96, 96, 106, 115, 111, 110] (a @ [96, 96, 96])"
      by blast+
    with p0 rest show ?thesis by simp
  qed
qed

lemma strip_code_fence_plain:
  assumes "\<not> sublist (lit ''```'') a" "\<not> prefix (lit ''`'') a" "\<not> prefix (lit ''json'') a"
  shows "strip_code_fence (lit ''```'' @ a @ lit ''```'') = strip a"
proof -
  from assms have ns: "\<not> sublist [96, 96, 96] a" and n1: "\<not> prefix [96] a"
    and n2: "\<not> prefix [106, 115, 111, 110] a"
    by (simp_all add: lit_fence)
  have "replace [96, 96, 96] [] ([96, 96, 96] @ a @ [96, 96, 96]) = replace [96, 96, 96] [] (a @ [96, 96, 96])"
    by (subst replace_at_prefix) simp_all
  with no_json_fence_plain [OF ns n1 n2] replace_close_fence [OF ns]
  have "replace (lit ''```'') [] (replace (lit ''```json'') [] (lit ''```'' @ a @ lit ''```'')) = a"
    by (simp only: lit_fence)
  then show ?thesis
    by (simp add: strip_code_fence_def lit_fence)
qed

lemma strip_code_fence_none:
  assumes "\<not> sublist (lit ''```'') a"
  shows "strip_code_fence (strip a) = strip a"
proof -
  have "\<not> prefix (lit ''```'') (strip a)"
  proof
    assume "prefix (lit ''```'') (strip a)"
    then have "sublist (lit ''```'') (strip a)" by (rule prefix_imp_sublist)
    from this sublist_strip have "sublist (lit ''```'') a" by (rule sublist_trans)
    with assms show False ..
  qed
  then show ?thesis by (simp add: strip_code_fence_def)
qed

lemma strip_fenced:
  assumes "list_all isspace p" "list_all isspace q"
  shows "strip (p @ (96 # xs @ [96, 96, 96]) @ q) = 96 # xs @ [96, 96, 96]"
  using assms by (intro strip_pad) (simp_all add: isspace_def)

lemma json_text_fenced:
  assumes "\<not> sublist (lit ''```'') a" and "list_all isspace p" "list_all isspace q"
      and "text = p @ lit ''```json'' @ a @ lit ''```'' @ q \<or>
           (text = p @ lit ''```'' @ a @ lit ''```'' @ q \<and> \<not> prefix (lit ''`'') a \<and> \<not> prefix (lit ''json'') a)"
  shows "strip_code_fence (strip text) = strip a"
  using assms(4)
proof
  assume t: "text = p @ lit ''```json'' @ a @ lit ''```'' @ q"
  have "strip text = lit ''```json'' @ a @ lit ''```''"
    unfolding t lit_fence
    using strip_fenced [OF assms(2,3), of "[96, 96, 106, 115, 111, 110] @ a"] by simp
  then show ?thesis by (simp add: strip_code_fence_json [OF assms(1)])
next
  assume t: "text = p @ lit ''```'' @ a @ lit ''```'' @ q \<and> \<not> prefix (lit ''`'') a \<and> \<not> prefix (lit ''json'') a"
  have "strip text = lit ''```'' @ a @ lit ''```''"
    using t unfolding lit_fence
    using strip_fenced [OF assms(2,3), of "[96, 96] @ a"] by simp
  with t show ?thesis by (simp add: strip_code_fence_plain [OF assms(1)])
qed

text \<open>
  C9, as the code has it. Let the provider's answer be some text \<open>a\<close> wrapped in a code
  fence, \<open>```json\<close> or \<open>```\<close> before and \<open>```\<close> after, with white space allowed around
  the whole. If \<open>a\<close> contains no \<open>```\<close> of its own (and, for the bare fence, starts with
  neither a backquote nor \<open>json\<close>, which no JSON text does), then \<open>json.loads\<close> receives
  \<open>a.strip()\<close>, exactly what it receives for the unwrapped answer, and so both
  classifiers behave the same on the wrapped and the unwrapped answer.
\<close>

theorem code_fence_stripped_before_parsing:
  assumes "\<forall>req. \<not> sublist (lit ''```'') (answer req)"
      and "\<forall>req. \<exists>p q. list_all isspace p \<and> list_all isspace q \<and>
             (fenced req = p @ lit ''```json'' @ answer req @ lit ''```'' @ q \<or>
              (fenced req = p @ lit ''```'' @ answer req @ lit ''```'' @ q \<and>
               \<not> prefix (lit ''`'') (answer req) \<and> \<not> prefix (lit ''json'') (answer req)))"
  shows "json_text fenced req = strip (answer req) \<and> json_text answer req = strip (answer req)
       \<and> batch_classify fenced loads files w = batch_classify answer loads files w
       \<and> classify_single_file fenced loads base file_path w
           = classify_single_file answer loads base file_path w"
proof -
  have same: "json_text fenced r = strip (answer r) \<and> json_text answer r = strip (answer r)" for r
  proof -
    from assms(2) obtain p q where "list_all isspace p" "list_all isspace q"
      "fenced r = p @ lit ''```json'' @ answer r @ lit ''```'' @ q \<or>
       (fenced r = p @ lit ''```'' @ answer r @ lit ''```'' @ q \<and>
        \<not> prefix (lit ''`'') (answer r) \<and> \<not> prefix (lit ''json'') (answer r))"
      by blast
    with assms(1) have "strip_code_fence (strip (fenced r)) = strip (answer r)"
      by (intro json_text_fenced) auto
    moreover have "strip_code_fence (strip (answer r)) = strip (answer r)"
      using assms(1) by (intro strip_code_fence_none) auto
    ultimately show ?thesis by (simp add: json_text_def)
  qed
  then have eq: "json_text fenced = json_text answer" by auto
  show ?thesis
    unfolding batch_classify_def classify_single_file_def eq using same by simp
qed

text \<open>
  The claim as stated fails for JSON that holds \<open>```\<close> inside a string: \<open>replace\<close>
  removes every occurrence, so the fenced answer decodes to the key \<open>ab\<close> where the
  unwrapped JSON has the key \<open>a```b\<close>.
\<close>

theorem code_fence_inner_marker_counterexample:
  \<open>json_text (\<lambda>r. lit ''```json\<newline>{"a```b": ["a.txt"]}\<newline>```'')
       (BatchRequest [lit ''a.txt''] MAX_FOLDERS)
     = lit ''{"ab": ["a.txt"]}''
   \<and> json_text (\<lambda>r. lit ''{"a```b": ["a.txt"]}'') (BatchRequest [lit ''a.txt''] MAX_FOLDERS)
     = lit ''{"a```b": ["a.txt"]}''
   \<and> batch_classify (\<lambda>r. lit ''```json\<newline>{"a```b": ["a.txt"]}\<newline>```'')
        (\<lambda>t. if t = lit ''{"a```b": ["a.txt"]}''
              then Some (JObj [(lit ''a```b'', JArr [JStr (lit ''a.txt'')])])
              else if t = lit ''{"ab": ["a.txt"]}''
              then Some (JObj [(lit ''ab'', JArr [JStr (lit ''a.txt'')])])
              else None)
        [ex_base @ [lit ''a.txt'']] ex_world
     = Returned [(lit ''ab'', [ex_base @ [lit ''a.txt'']])]
         (emit (Request (BatchRequest [lit ''a.txt''] MAX_FOLDERS)) ex_world)
   \<and> batch_classify (\<lambda>r. lit ''{"a```b": ["a.txt"]}'')
        (\<lambda>t. if t = lit ''{"a```b": ["a.txt"]}''
              then Some (JObj [(lit ''a```b'', JArr [JStr (lit ''a.txt'')])])
              else if t = lit ''{"ab": ["a.txt"]}''
              then Some (JObj [(lit ''ab'', JArr [JStr (lit ''a.txt'')])])
              else None)
        [ex_base @ [lit ''a.txt'']] ex_world
     = Returned [(lit ''a```b'', [ex_base @ [lit ''a.txt'']])]
         (emit (Request (BatchRequest [lit ''a.txt''] MAX_FOLDERS)) ex_world)\<close>
  by (simp add: run_defs fs_simps example_defs)

text \<open>On a fenced answer followed by a newline: the JSON inside reaches \<open>json.loads\<close>.\<close>

lemma ex_fence_run:
  \<open>batch_classify (\<lambda>r. lit ''\<newline>{"Docs": ["a.txt"]}\<newline>'')
        (\<lambda>t. if t = lit ''{"Docs": ["a.txt"]}''
              then Some (JObj [(lit ''Docs'', JArr [JStr (lit ''a.txt'')])]) else None)
        [ex_base @ [lit ''a.txt'']] ex_world
     = Returned [(lit ''Docs'', [ex_base @ [lit ''a.txt'']])]
         (emit (Request (BatchRequest [lit ''a.txt''] MAX_FOLDERS)) ex_world)\<close>
  by (simp add: run_defs fs_simps example_defs)

theorem code_fence_stripped_before_parsing_witness:
  \<open>json_text (\<lambda>r. lit ''```json\<newline>{"Docs": ["a.txt"]}\<newline>```\<newline>'')
       (BatchRequest [lit ''a.txt''] MAX_FOLDERS)
     = lit ''{"Docs": ["a.txt"]}''
   \<and> batch_classify (\<lambda>r. lit ''```json\<newline>{"Docs": ["a.txt"]}\<newline>```\<newline>'')
        (\<lambda>t. if t = lit ''{"Docs": ["a.txt"]}''
              then Some (JObj [(lit ''Docs'', JArr [JStr (lit ''a.txt'')])]) else None)
        [ex_base @ [lit ''a.txt'']] ex_world
     = Returned [(lit ''Docs'', [ex_base @ [lit ''a.txt'']])]
         (emit (Request (BatchRequest [lit ''a.txt''] MAX_FOLDERS)) ex_world)\<close>
proof -
  let ?answer = \<open>\<lambda>r :: request. lit ''\<newline>{"Docs": ["a.txt"]}\<newline>''\<close>
  let ?fenced = \<open>\<lambda>r :: request. lit ''```json\<newline>{"Docs": ["a.txt"]}\<newline>```\<newline>''\<close>
  have clean: \<open>\<forall>req. \<not> sublist (lit ''```'') (?answer req)\<close>
    by (simp add: lit_def sublist_code)
  have wrapped: \<open>\<forall>req. \<exists>p q. list_all isspace p \<and> list_all isspace q \<and>
             (?fenced req = p @ lit ''```json'' @ ?answer req @ lit ''```'' @ q \<or>
              (?fenced req = p @ lit ''```'' @ ?answer req @ lit ''```'' @ q \<and>
               \<not> prefix (lit ''`'') (?answer req) \<and> \<not> prefix (lit ''json'') (?answer req)))\<close>
    by (intro allI exI [of _ "[]"] exI [of _ "[10]"]) (simp add: lit_def isspace_def)
  have stripped: \<open>strip (?answer r) = lit ''{"Docs": ["a.txt"]}''\<close> for r
    by (simp add: strip_def isspace_def lit_def)
  from code_fence_stripped_before_parsing [OF clean wrapped]
  have \<open>json_text ?fenced (BatchRequest [lit ''a.txt''] MAX_FOLDERS) = strip (?answer (BatchRequest [lit ''a.txt''] MAX_FOLDERS))\<close>
    and \<open>batch_classify ?fenced
        (\<lambda>t. if t = lit ''{"Docs": ["a.txt"]}''
              then Some (JObj [(lit ''Docs'', JArr [JStr (lit ''a.txt'')])]) else None)
        [ex_base @ [lit ''a.txt'']] ex_world =
      batch_classify ?answer
        (\<lambda>t. if t = lit ''{"Docs": ["a.txt"]}''
              then Some (JObj [(lit ''Docs'', JArr [JStr (lit ''a.txt'')])]) else None)
        [ex_base @ [lit ''a.txt'']] ex_world\<close>
    by blast+
  then show ?thesis
    by (simp only: stripped ex_fence_run)
qed

end
